theory Spec2Isabelle
  imports Main
begin

section \<open>The tail engine of app.js\<close>

text \<open>
  The development embeds \<^verbatim>\<open>src/app.js\<close>: the reverse line reader
  \<^verbatim>\<open>getLastNLines\<close>, the incremental reader \<^verbatim>\<open>getNewLines\<close>, the
  connection handler, the debounced watch callback, and the start of the module with its
  watch and its initial stat.

  Modelling decisions, all of them about the runtime and none about the code:
  \<^item> the watched file is a list of bytes, and a JavaScript string is the list of its UTF-16
    code units; \<^verbatim>\<open>toString('utf-8')\<close> and the decoder of a stream are the UTF-8 decoder
    of the Encoding standard, which puts U+FFFD for every ill-formed sequence;
  \<^item> the file system is the entry at \<^verbatim>\<open>LOG_FILE_PATH\<close>: absent, or present with its content
    and a flag saying whether it can be read (a stat needs no read permission; a watch and
    an open do);
  \<^item> a handler runs atomically: the file does not change between the steps of one call;
  \<^item> a promise is resolved, rejected or never settled;
  \<^item> \<^verbatim>\<open>ws.send\<close> on an open socket hands the message over and returns; the server keeps
    \<^verbatim>\<open>wss.clients\<close>, adding a socket when it connects and deleting it when it has closed;
  \<^item> time is counted in milliseconds, and a timer fires once its due time has been reached.
\<close>

subsection \<open>Strings and arrays of the JavaScript runtime\<close>

type_synonym jsstring = "nat list"

text \<open>The string whose characters are the given single-byte ones.\<close>

definition ascii :: "string \<Rightarrow> jsstring" where
  "ascii s = map of_char s"

text \<open>\<^verbatim>\<open>s.split('\n')\<close>: the fragments between newlines; never the empty array.\<close>

fun split_nl :: "jsstring \<Rightarrow> jsstring list" where
  "split_nl [] = [[]]"
| "split_nl (c # cs) =
     (if c = 0x0A then [] # split_nl cs
      else (c # hd (split_nl cs)) # tl (split_nl cs))"

text \<open>
  The code units that \<^verbatim>\<open>trim\<close> removes: the white space of the language (tab, vertical
  tab, form feed, the byte order mark and the space separators of Unicode) and its line
  terminators.
\<close>

definition isWhiteSpace :: "nat \<Rightarrow> bool" where
  "isWhiteSpace c =
     (c = 0x09 \<or> c = 0x0A \<or> c = 0x0B \<or> c = 0x0C \<or> c = 0x0D \<or> c = 0x20 \<or> c = 0xA0
      \<or> c = 0x1680 \<or> (0x2000 \<le> c \<and> c \<le> 0x200A) \<or> c = 0x2028 \<or> c = 0x2029
      \<or> c = 0x202F \<or> c = 0x205F \<or> c = 0x3000 \<or> c = 0xFEFF)"

definition trim :: "jsstring \<Rightarrow> jsstring" where
  "trim s = rev (dropWhile isWhiteSpace (rev (dropWhile isWhiteSpace s)))"

text \<open>A string used as a condition is true exactly when it is not empty.\<close>

definition truthy :: "jsstring \<Rightarrow> bool" where
  "truthy s = (s \<noteq> [])"

text \<open>
  \<^verbatim>\<open>xs.slice(-n)\<close> for a count \<open>n \<ge> 0\<close>: the last \<open>n\<close> elements, all of them when there
  are fewer; \<^verbatim>\<open>-0\<close> is \<^verbatim>\<open>0\<close>, so \<^verbatim>\<open>xs.slice(-0)\<close> is the whole array.
\<close>

definition slice_last :: "nat \<Rightarrow> 'a list \<Rightarrow> 'a list" where
  "slice_last n xs = (if n = 0 then xs else drop (length xs - n) xs)"

subsection \<open>Decoding UTF-8\<close>

text \<open>A code point as UTF-16: one code unit, or a surrogate pair from U+10000 on.\<close>

definition utf16 :: "nat \<Rightarrow> jsstring" where
  "utf16 cp =
     (if cp < 0x10000 then [cp]
      else [0xD800 + (cp - 0x10000) div 0x400, 0xDC00 + (cp - 0x10000) mod 0x400])"

text \<open>
  The state of the decoder: the code point under construction, the number of continuation
  bytes it still needs, and the range in which the next one must lie.
\<close>

record decoder =
  codePoint :: nat
  bytesNeeded :: nat
  lowerBoundary :: nat
  upperBoundary :: nat

definition initialDecoder :: decoder where
  "initialDecoder =
     \<lparr>codePoint = 0, bytesNeeded = 0, lowerBoundary = 0x80, upperBoundary = 0xBF\<rparr>"

text \<open>A byte read when no sequence is open: what is put out, and the next state.\<close>

definition leadByte :: "nat \<Rightarrow> jsstring \<times> decoder" where
  "leadByte b =
     (if b < 0x80 then ([b], initialDecoder)
      else if 0xC2 \<le> b \<and> b \<le> 0xDF
        then ([], \<lparr>codePoint = b mod 0x20, bytesNeeded = 1,
                   lowerBoundary = 0x80, upperBoundary = 0xBF\<rparr>)
      else if 0xE0 \<le> b \<and> b \<le> 0xEF
        then ([], \<lparr>codePoint = b mod 0x10, bytesNeeded = 2,
                   lowerBoundary = (if b = 0xE0 then 0xA0 else 0x80),
                   upperBoundary = (if b = 0xED then 0x9F else 0xBF)\<rparr>)
      else if 0xF0 \<le> b \<and> b \<le> 0xF4
        then ([], \<lparr>codePoint = b mod 0x08, bytesNeeded = 3,
                   lowerBoundary = (if b = 0xF0 then 0x90 else 0x80),
                   upperBoundary = (if b = 0xF4 then 0x8F else 0xBF)\<rparr>)
      else ([0xFFFD], initialDecoder))"

text \<open>
  A byte outside the expected range ends the open sequence with U+FFFD and is read again as
  a first byte; so does the end of the input.
\<close>

fun decodeBytes :: "decoder \<Rightarrow> nat list \<Rightarrow> jsstring" where
  "decodeBytes d [] = (if bytesNeeded d = 0 then [] else [0xFFFD])"
| "decodeBytes d (b # bs) =
     (if bytesNeeded d = 0
      then fst (leadByte b) @ decodeBytes (snd (leadByte b)) bs
      else if lowerBoundary d \<le> b \<and> b \<le> upperBoundary d
        then (if bytesNeeded d = 1
              then utf16 (codePoint d * 0x40 + b mod 0x40) @ decodeBytes initialDecoder bs
              else decodeBytes \<lparr>codePoint = codePoint d * 0x40 + b mod 0x40,
                     bytesNeeded = bytesNeeded d - 1,
                     lowerBoundary = 0x80, upperBoundary = 0xBF\<rparr> bs)
      else 0xFFFD # fst (leadByte b) @ decodeBytes (snd (leadByte b)) bs)"

text \<open>\<^verbatim>\<open>buffer.toString('utf-8', 0, bytesRead)\<close>, and what a stream with that encoding yields.\<close>

definition toString_utf8 :: "string \<Rightarrow> jsstring" where
  "toString_utf8 bytes = decodeBytes initialDecoder (map of_char bytes)"

subsection \<open>The file system and promises\<close>

datatype error = ENOENT | EACCES

datatype 'a promise = Resolved 'a | Rejected error | Pending

record logfile =
  content :: string
  readable :: bool

text \<open>\<^verbatim>\<open>fs.promises.stat\<close> and \<^verbatim>\<open>fs.fstat\<close>: the size in bytes.\<close>

definition fs_stat :: "logfile option \<Rightarrow> error + nat" where
  "fs_stat entry = (case entry of None \<Rightarrow> Inl ENOENT | Some f \<Rightarrow> Inr (length (content f)))"

text \<open>\<^verbatim>\<open>fs.open(path, 'r')\<close> and \<^verbatim>\<open>fs.createReadStream\<close>: the bytes that can be read.\<close>

definition fs_open :: "logfile option \<Rightarrow> error + string" where
  "fs_open entry =
     (case entry of
        None \<Rightarrow> Inl ENOENT
      | Some f \<Rightarrow> if readable f then Inr (content f) else Inl EACCES)"

text \<open>
  \<^verbatim>\<open>fs.watch\<close>: it throws at once when the file is absent or may not be read, and gives a
  watcher otherwise.
\<close>

definition fs_watch :: "logfile option \<Rightarrow> error + unit" where
  "fs_watch entry =
     (case entry of
        None \<Rightarrow> Inl ENOENT
      | Some f \<Rightarrow> if readable f then Inr () else Inl EACCES)"

subsection \<open>getLastNLines\<close>

definition bufferSize :: nat where
  "bufferSize = 1024"

text \<open>
  The inner function \<^verbatim>\<open>readChunk\<close> with the variables it closes over as arguments.
  \<^verbatim>\<open>fs.read\<close> puts the bytes of the file in \<open>[start, start + bytesToRead)\<close> into the buffer
  and gives their number; each chunk is decoded on its own. On an open descriptor
  \<^verbatim>\<open>fs.fstat\<close> and \<^verbatim>\<open>fs.read\<close> succeed. The recursion follows the source, which has no
  bound of its own: a call that never resolves is \<open>None\<close>.
\<close>

partial_function (option) readChunk ::
  "string \<Rightarrow> nat \<Rightarrow> nat \<Rightarrow> jsstring \<Rightarrow> jsstring list \<Rightarrow> jsstring list option" where
  "readChunk data n position leftover lines =
     (let bytesToRead = min position bufferSize;
          start = position - bytesToRead
      in if bytesToRead \<le> 0
         then Some (slice_last n (if truthy leftover then leftover # lines else lines))
         else
           (let buffer = take bytesToRead (drop start data);
                bytesRead = length buffer;
                position' = position - bytesRead;
                chunk = toString_utf8 buffer;
                chunkLines = split_nl (chunk @ leftover);
                leftover' = hd chunkLines;
                lines' = tl chunkLines @ lines
            in if n \<le> length lines' then Some (slice_last n lines')
               else readChunk data n position' leftover' lines'))"

declare readChunk.simps [code]

definition getLastNLines :: "logfile option \<Rightarrow> nat \<Rightarrow> jsstring list promise" where
  "getLastNLines entry n =
     (case fs_open entry of
        Inl err \<Rightarrow> Rejected err
      | Inr data \<Rightarrow>
          (case readChunk data n (length data) [] [] of
             None \<Rightarrow> Pending
           | Some lines \<Rightarrow> Resolved lines))"

subsection \<open>getNewLines\<close>

definition getNewLines :: "logfile option \<Rightarrow> nat \<Rightarrow> jsstring list promise" where
  "getNewLines entry fromPosition =
     (case fs_open entry of
        Inl err \<Rightarrow> Rejected err
      | Inr bytes \<Rightarrow>
          (let data = toString_utf8 (drop fromPosition bytes)
           in Resolved (filter (\<lambda>line. truthy (trim line)) (split_nl data))))"

subsection \<open>Subscribers and messages\<close>

text \<open>
  The argument of \<^verbatim>\<open>JSON.stringify\<close>. A message handed to \<^verbatim>\<open>ws.send\<close> is recorded as the
  value that was serialised.
\<close>

datatype json = JString jsstring | JArray "json list" | JObject "(string \<times> json) list"

text \<open>\<^verbatim>\<open>{ lines }\<close> and \<^verbatim>\<open>{ error: 'Unable to read file' }\<close>.\<close>

definition linesMessage :: "jsstring list \<Rightarrow> json" where
  "linesMessage lines = JObject [(''lines'', JArray (map JString lines))]"

definition errorMessage :: json where
  "errorMessage = JObject [(''error'', JString (ascii ''Unable to read file''))]"

datatype ready_state = CONNECTING | OPEN | CLOSING | CLOSED

record client =
  readyState :: ready_state
  sent :: "json list"

definition ws_send :: "json \<Rightarrow> client \<Rightarrow> client" where
  "ws_send message c = c\<lparr>sent := sent c @ [message]\<rparr>"

text \<open>
  The state the handlers share: the file system entry, the variable \<^verbatim>\<open>lastFileSize\<close>, the
  set \<^verbatim>\<open>wss.clients\<close> in insertion order, and the sockets the server has removed from that
  set when they closed (kept so that what they received stays observable).
\<close>

record world =
  logFile :: "logfile option"
  lastFileSize :: nat
  clients :: "client list"
  closed :: "client list"

subsection \<open>The connection handler\<close>

text \<open>
  The server adds the new socket, open, to \<^verbatim>\<open>wss.clients\<close>; the handler reads the last 10
  lines and sends them, or the error message when the promise is rejected.
\<close>

definition connection :: "world \<Rightarrow> world" where
  "connection w =
     (let ws = \<lparr>readyState = OPEN, sent = []\<rparr>;
          ws' = (case getLastNLines (logFile w) 10 of
                   Resolved lines \<Rightarrow> ws_send (linesMessage lines) ws
                 | Rejected err \<Rightarrow> ws_send errorMessage ws
                 | Pending \<Rightarrow> ws)
      in w\<lparr>clients := clients w @ [ws']\<rparr>)"

text \<open>A socket closes: the server deletes it from \<^verbatim>\<open>wss.clients\<close>; the handler only logs.\<close>

definition closeClient :: "nat \<Rightarrow> world \<Rightarrow> world" where
  "closeClient i w =
     (if i < length (clients w)
      then w\<lparr>clients := take i (clients w) @ drop (Suc i) (clients w),
             closed := closed w @ [(clients w ! i)\<lparr>readyState := CLOSED\<rparr>]\<rparr>
      else w)"

text \<open>A socket starts its closing handshake: it stays in the set until it has closed.\<close>

definition closingClient :: "nat \<Rightarrow> world \<Rightarrow> world" where
  "closingClient i w =
     (if i < length (clients w)
      then w\<lparr>clients := (clients w)[i := (clients w ! i)\<lparr>readyState := CLOSING\<rparr>]\<rparr>
      else w)"

subsection \<open>The debounced check\<close>

text \<open>The loop \<^verbatim>\<open>wss.clients.forEach\<close> of the timer callback.\<close>

definition forEachClient :: "json \<Rightarrow> client list \<Rightarrow> client list" where
  "forEachClient message cs =
     map (\<lambda>c. if readyState c = OPEN then ws_send message c else c) cs"

text \<open>The \<^verbatim>\<open>try\<close> block of the timer callback: \<open>Inl\<close> is the exception it throws.\<close>

definition checkTry :: "world \<Rightarrow> error + world" where
  "checkTry w =
     (case fs_stat (logFile w) of
        Inl err \<Rightarrow> Inl err
      | Inr stats_size \<Rightarrow>
          if stats_size > lastFileSize w
          then (case getNewLines (logFile w) (lastFileSize w) of
                  Rejected err \<Rightarrow> Inl err
                | Pending \<Rightarrow> Inr w
                | Resolved newLines \<Rightarrow>
                    Inr (w\<lparr>lastFileSize := stats_size,
                           clients := forEachClient (linesMessage newLines) (clients w)\<rparr>))
          else Inr w)"

text \<open>
  The timer callback: the \<^verbatim>\<open>catch\<close> block is empty, and every assignment and every send of
  the \<^verbatim>\<open>try\<close> block comes after its last \<^verbatim>\<open>await\<close>, so an exception leaves the state as it
  was.
\<close>

definition checkCycle :: "world \<Rightarrow> world" where
  "checkCycle w = (case checkTry w of Inl err \<Rightarrow> w | Inr w' \<Rightarrow> w')"

subsection \<open>The start of the module\<close>

text \<open>The handlers of the promise of the initial stat.\<close>

definition initialStat :: "world \<Rightarrow> world" where
  "initialStat w =
     (case fs_stat (logFile w) of
        Inr stats_size \<Rightarrow> w\<lparr>lastFileSize := stats_size\<rparr>
      | Inl err \<Rightarrow> w\<lparr>lastFileSize := 0\<rparr>)"

text \<open>
  The module from its first line to the settling of the initial stat. The call of
  \<^verbatim>\<open>fs.watch\<close> comes first and stands in no \<^verbatim>\<open>try\<close>: what it throws ends the process
  (\<open>Inl\<close>) before the stat is asked for. Otherwise the engine runs (\<open>Inr\<close>).
\<close>

definition startEngine :: "logfile option \<Rightarrow> error + world" where
  "startEngine entry =
     (case fs_watch entry of
        Inl err \<Rightarrow> Inl err
      | Inr watcher \<Rightarrow>
          Inr (initialStat \<lparr>logFile = entry, lastFileSize = 0, clients = [], closed = []\<rparr>))"

subsection \<open>Events\<close>

text \<open>
  What can happen to a running engine: a subscriber connects, the debounce timer fires, an
  external writer replaces the file system entry, a socket closes or starts closing.
\<close>

datatype event =
    Connect
  | TimerFired
  | WriteFile "logfile option"
  | Close nat
  | Closing nat

fun step :: "event \<Rightarrow> world \<Rightarrow> world" where
  "step Connect w = connection w"
| "step TimerFired w = checkCycle w"
| "step (WriteFile entry) w = w\<lparr>logFile := entry\<rparr>"
| "step (Close i) w = closeClient i w"
| "step (Closing i) w = closingClient i w"

definition run :: "event list \<Rightarrow> world \<Rightarrow> world" where
  "run evs w = fold step evs w"

fun isWrite :: "event \<Rightarrow> bool" where
  "isWrite (WriteFile entry) = True"
| "isWrite ev = False"

subsection \<open>Timers\<close>

text \<open>
  The watch callback and the timers of the runtime. A timer is a handle and the time, in
  milliseconds, at which it is due; \<^verbatim>\<open>setTimeout\<close> adds one under a fresh handle,
  \<^verbatim>\<open>clearTimeout\<close> removes the one with the given handle and ignores \<^verbatim>\<open>undefined\<close>.
  The field \<open>checks\<close> counts the runs of the timer callback.
\<close>

datatype eventType = change | rename

record eventloop =
  engine :: world
  now :: nat
  timers :: "(nat \<times> nat) list"
  nextHandle :: nat
  debounceTimeout :: "nat option"
  checks :: nat

definition clearTimeout :: "nat option \<Rightarrow> eventloop \<Rightarrow> eventloop" where
  "clearTimeout handle s =
     (case handle of
        None \<Rightarrow> s
      | Some h \<Rightarrow> s\<lparr>timers := filter (\<lambda>t. fst t \<noteq> h) (timers s)\<rparr>)"

definition setTimeout :: "nat \<Rightarrow> eventloop \<Rightarrow> nat \<times> eventloop" where
  "setTimeout delay s =
     (nextHandle s,
      s\<lparr>timers := timers s @ [(nextHandle s, now s + delay)],
        nextHandle := Suc (nextHandle s)\<rparr>)"

definition watchCallback :: "eventType \<Rightarrow> eventloop \<Rightarrow> eventloop" where
  "watchCallback ev s =
     (if ev = change
      then (let s1 = clearTimeout (debounceTimeout s) s;
                (h, s2) = setTimeout 100 s1
            in s2\<lparr>debounceTimeout := Some h\<rparr>)
      else s)"

text \<open>The clock reaches \<open>t\<close>: every timer due by then fires, and its callback runs once.\<close>

definition advance :: "nat \<Rightarrow> eventloop \<Rightarrow> eventloop" where
  "advance t s =
     (let due = filter (\<lambda>tm. snd tm \<le> t) (timers s)
      in s\<lparr>now := max t (now s),
           timers := filter (\<lambda>tm. \<not> snd tm \<le> t) (timers s),
           engine := (checkCycle ^^ length due) (engine s),
           checks := checks s + length due\<rparr>)"

text \<open>A notification of the watcher arrives at time \<open>t\<close>.\<close>

definition notify :: "nat \<Rightarrow> eventType \<Rightarrow> eventloop \<Rightarrow> eventloop" where
  "notify t ev s = watchCallback ev (advance t s)"

definition burst :: "nat list \<Rightarrow> eventloop \<Rightarrow> eventloop" where
  "burst ts s = fold (\<lambda>t. notify t change) ts s"

text \<open>Times in order, each gap shorter than the 100 ms of the timer.\<close>

fun rapid :: "nat list \<Rightarrow> bool" where
  "rapid (a # b # ts) = (a \<le> b \<and> b < a + 100 \<and> rapid (b # ts))"
| "rapid ts = True"

subsection \<open>Reference notions of the specification\<close>

text \<open>
  The line sequence of a text by a full scan: the fragments between newlines, where a final
  newline ends the last line and starts no further one. The empty text has no line.
\<close>

definition fileLines :: "jsstring \<Rightarrow> jsstring list" where
  "fileLines text =
     (if last (split_nl text) = [] then butlast (split_nl text) else split_nl text)"

text \<open>The last \<open>min n (totalLines F)\<close> lines of that sequence, unfiltered.\<close>

definition lastNLines_reference :: "jsstring \<Rightarrow> nat \<Rightarrow> jsstring list" where
  "lastNLines_reference text n =
     drop (length (fileLines text) - min n (length (fileLines text))) (fileLines text)"

text \<open>The line sequence without its first line when that line is empty.\<close>

definition linesKept :: "jsstring \<Rightarrow> jsstring list" where
  "linesKept text = (if take 1 text = [0x0A] then tl (fileLines text) else fileLines text)"

text \<open>The fragments between newlines without the first one when it is empty.\<close>

definition scannedLines :: "jsstring \<Rightarrow> jsstring list" where
  "scannedLines text = (if hd (split_nl text) = [] then tl (split_nl text) else split_nl text)"

text \<open>Text of single-byte characters only.\<close>

definition asciiText :: "string \<Rightarrow> bool" where
  "asciiText bytes = list_all (\<lambda>c. of_char c < (0x80 :: nat)) bytes"

text \<open>A blank line holds nothing but white space.\<close>

definition blank :: "jsstring \<Rightarrow> bool" where
  "blank line = list_all isWhiteSpace line"

text \<open>
  The lines fully contained in a piece of appended text: the fragments that a newline ends,
  that is all fragments but the last.
\<close>

definition completeLines :: "jsstring \<Rightarrow> jsstring list" where
  "completeLines text = butlast (split_nl text)"

definition newLines_reference :: "jsstring \<Rightarrow> jsstring list" where
  "newLines_reference text = filter (\<lambda>line. \<not> blank line) (completeLines text)"

text \<open>The two shapes of a message: a list of strings under \<open>lines\<close>, or the fixed error.\<close>

fun isJString :: "json \<Rightarrow> bool" where
  "isJString (JString s) = True"
| "isJString v = False"

fun wellShaped :: "json \<Rightarrow> bool" where
  "wellShaped (JObject [(k, JArray vs)]) = (k = ''lines'' \<and> list_all isJString vs)"
| "wellShaped (JObject [(k, JString s)]) =
     (k = ''error'' \<and> s = ascii ''Unable to read file'')"
| "wellShaped v = False"

definition allShaped :: "world \<Rightarrow> bool" where
  "allShaped w = list_all (\<lambda>c. list_all wellShaped (sent c)) (clients w @ closed w)"

section \<open>The reverse line reader\<close>

subsection \<open>Splitting and slicing\<close>

lemma split_nl_nonempty: "split_nl s \<noteq> []"
  by (induction s) auto

lemma hd_split_nl_no_newline: "0x0A \<notin> set (hd (split_nl s))"
  by (induction s) auto

lemma split_nl_single: "0x0A \<notin> set s \<Longrightarrow> split_nl s = [s]"
  by (induction s) auto

lemma split_nl_append:
  "split_nl (a @ b) = split_nl (a @ hd (split_nl b)) @ tl (split_nl b)"
proof (induction a)
  case Nil
  have "split_nl (hd (split_nl b)) = [hd (split_nl b)]"
    by (rule split_nl_single) (rule hd_split_nl_no_newline)
  then show ?case using split_nl_nonempty [of b] by simp
next
  case (Cons c a)
  then show ?case using split_nl_nonempty [of "a @ hd (split_nl b)"] by simp
qed

lemma last_split_nl: "s \<noteq> [] \<Longrightarrow> last s \<noteq> 0x0A \<Longrightarrow> last (split_nl s) \<noteq> []"
proof (induction s)
  case Nil
  then show ?case by simp
next
  case (Cons c cs)
  show ?case
  proof (cases "cs = []")
    case True
    with Cons.prems show ?thesis by simp
  next
    case False
    then have "last (split_nl cs) \<noteq> []" using Cons by simp
    then show ?thesis
      using split_nl_nonempty [of cs] by (cases "split_nl cs") (auto split: if_splits)
  qed
qed

lemma slice_last_append:
  "0 < n \<Longrightarrow> n \<le> length ys \<Longrightarrow> slice_last n (xs @ ys) = slice_last n ys"
  by (simp add: slice_last_def)

subsection \<open>Single-byte text\<close>

lemma decodeBytes_ascii:
  "list_all (\<lambda>b. b < 0x80) bs \<Longrightarrow> decodeBytes initialDecoder bs = bs"
  by (induction bs) (simp_all add: initialDecoder_def leadByte_def)

lemma toString_utf8_ascii: "asciiText bytes \<Longrightarrow> toString_utf8 bytes = ascii bytes"
  by (simp add: toString_utf8_def ascii_def asciiText_def decodeBytes_ascii list_all_iff)

lemma asciiText_take_drop: "asciiText bytes \<Longrightarrow> asciiText (take k (drop j bytes))"
  unfolding asciiText_def list_all_iff
  by (meson in_set_dropD in_set_takeD)

lemma ascii_append: "ascii (a @ b) = ascii a @ ascii b"
  by (simp add: ascii_def)

lemma ascii_newline: "(of_char c = (0x0A :: nat)) = (c = CHR 0x0A)"
proof -
  have "of_char (CHR 0x0A) = (0x0A :: nat)" by simp
  then have "(of_char c = (0x0A :: nat)) = (of_char c = (of_char (CHR 0x0A) :: nat))"
    by (simp only:)
  then show ?thesis by (simp only: of_char_eq_iff)
qed

subsection \<open>The scan\<close>

lemma readChunk_resolves:
  assumes "position \<le> length data"
    and "split_nl (ascii (drop position data)) = leftover # lines"
    and "length lines < n"
    and "asciiText data"
  shows "readChunk data n position leftover lines = Some (slice_last n (scannedLines (ascii data)))"
  using assms
proof (induction position arbitrary: leftover lines rule: less_induct)
  case (less position)
  show ?case
  proof (cases "position = 0")
    case True
    with less.prems show ?thesis
      by (subst readChunk.simps) (simp add: scannedLines_def truthy_def)
  next
    case False
    define bytesToRead where "bytesToRead = min position bufferSize"
    define start where "start = position - bytesToRead"
    define chunk where "chunk = take bytesToRead (drop start data)"
    define chunkLines where "chunkLines = split_nl (ascii chunk @ leftover)"
    have dec: "toString_utf8 chunk = ascii chunk"
      unfolding chunk_def using less.prems(4) by (intro toString_utf8_ascii asciiText_take_drop)
    have pos: "0 < bytesToRead" "bytesToRead \<le> position"
      using False by (simp_all add: bytesToRead_def bufferSize_def)
    have len: "length chunk = bytesToRead"
      using pos less.prems(1) by (simp add: chunk_def start_def)
    have drop_start: "drop start data = chunk @ drop position data"
    proof -
      have "drop start data = take bytesToRead (drop start data) @ drop bytesToRead (drop start data)"
        by (rule append_take_drop_id [symmetric])
      moreover have "drop bytesToRead (drop start data) = drop position data"
        using pos by (simp add: start_def)
      ultimately show ?thesis by (simp only: chunk_def)
    qed
    have ne: "chunkLines \<noteq> []"
      by (simp add: chunkLines_def split_nl_nonempty)
    have inv: "split_nl (ascii (drop start data)) = hd chunkLines # (tl chunkLines @ lines)"
    proof -
      have "split_nl (ascii (drop start data)) = split_nl (ascii chunk @ leftover) @ lines"
        using split_nl_append [of "ascii chunk" "ascii (drop position data)"] less.prems(2)
        by (simp add: drop_start ascii_append)
      then show ?thesis using ne by (simp add: chunkLines_def)
    qed
    have unfold: "readChunk data n position leftover lines =
        (if n \<le> length (tl chunkLines @ lines) then Some (slice_last n (tl chunkLines @ lines))
         else readChunk data n start (hd chunkLines) (tl chunkLines @ lines))"
      using pos len
      by (subst readChunk.simps)
        (simp add: Let_def bytesToRead_def [symmetric] start_def [symmetric]
          chunk_def [symmetric] dec chunkLines_def [symmetric])
    show ?thesis
    proof (cases "n \<le> length (tl chunkLines @ lines)")
      case True
      have whole: "split_nl (ascii data)
          = split_nl (ascii (take start data) @ hd chunkLines) @ (tl chunkLines @ lines)"
        using split_nl_append [of "ascii (take start data)" "ascii (drop start data)"] inv
        by (simp add: ascii_append [symmetric])
      obtain x xs where x: "split_nl (ascii (take start data) @ hd chunkLines) = x # xs"
        using split_nl_nonempty [of "ascii (take start data) @ hd chunkLines"]
        by (cases "split_nl (ascii (take start data) @ hd chunkLines)") auto
      have n0: "0 < n" using less.prems(3) by simp
      have "slice_last n (scannedLines (ascii data)) = slice_last n (tl chunkLines @ lines)"
      proof (cases "x = []")
        case True
        then have "scannedLines (ascii data) = xs @ (tl chunkLines @ lines)"
          by (simp add: scannedLines_def whole x)
        then show ?thesis using slice_last_append [OF n0 \<open>n \<le> length (tl chunkLines @ lines)\<close>] by simp
      next
        case False
        then have "scannedLines (ascii data) = (x # xs) @ (tl chunkLines @ lines)"
          by (simp add: scannedLines_def whole x)
        then show ?thesis
          using slice_last_append [OF n0 \<open>n \<le> length (tl chunkLines @ lines)\<close>, of "x # xs"]
          by simp
      qed
      with True unfold show ?thesis by simp
    next
      case False
      have "start < position" using pos by (simp add: start_def)
      moreover have "start \<le> length data" using less.prems(1) by (simp add: start_def)
      ultimately have "readChunk data n start (hd chunkLines) (tl chunkLines @ lines)
          = Some (slice_last n (scannedLines (ascii data)))"
        using less.IH [of start "hd chunkLines" "tl chunkLines @ lines"] inv False less.prems(4)
        by simp
      with False unfold show ?thesis by simp
    qed
  qed
qed

lemma scannedLines_linesKept:
  "s = [] \<or> last s \<noteq> 0x0A \<Longrightarrow> scannedLines s = linesKept s"
proof (cases s)
  case Nil
  then show ?thesis by (simp add: scannedLines_def linesKept_def fileLines_def)
next
  case (Cons c cs)
  assume "s = [] \<or> last s \<noteq> 0x0A"
  with Cons have "last (split_nl s) \<noteq> []"
    by (intro last_split_nl) simp_all
  then have f: "fileLines s = split_nl s" by (simp add: fileLines_def)
  have "(hd (split_nl s) = []) = (take 1 s = [0x0A])"
    using Cons by simp
  then show ?thesis
    unfolding scannedLines_def linesKept_def f by simp
qed

lemma getLastNLines_readable:
  "0 < n \<Longrightarrow> asciiText F \<Longrightarrow>
     getLastNLines (Some \<lparr>content = F, readable = True\<rparr>) n
       = Resolved (slice_last n (scannedLines (ascii F)))"
  using readChunk_resolves [of "length F" F "[]" "[]" n]
  by (simp add: getLastNLines_def fs_open_def ascii_def)

lemma ascii_last: "F = [] \<or> last F \<noteq> CHR 0x0A \<Longrightarrow> ascii F = [] \<or> last (ascii F) \<noteq> 0x0A"
  by (cases "F = []") (simp_all add: ascii_def last_map ascii_newline)

text \<open>
  C1, as amended. For a readable file \<open>F\<close> of single-byte text that is empty or does not end
  with a newline, and for a count \<open>n \<ge> 1\<close>, \<^verbatim>\<open>getLastNLines\<close> resolves with the last
  \<open>min n k\<close> lines, in file order, of the \<open>k\<close> lines that a full scan of \<open>F\<close> gives once its
  first line is left out when that line is empty. No other line is filtered, the empty file
  gives the empty sequence, and the chunking does not show in the result.
\<close>

theorem getLastNLines_suffix:
  assumes "0 < n" and "asciiText F" and "F = [] \<or> last F \<noteq> CHR 0x0A"
  shows "getLastNLines (Some \<lparr>content = F, readable = True\<rparr>) n
       = Resolved (drop (length (linesKept (ascii F)) - min n (length (linesKept (ascii F))))
           (linesKept (ascii F)))
     \<and> length (drop (length (linesKept (ascii F)) - min n (length (linesKept (ascii F))))
           (linesKept (ascii F)))
       = min n (length (linesKept (ascii F)))"
  using getLastNLines_readable [OF assms(1,2)] scannedLines_linesKept [OF ascii_last [OF assms(3)]]
    assms(1)
  by (auto simp: slice_last_def min_def)

text \<open>The last two of three lines.\<close>

theorem getLastNLines_suffix_witness:
  "getLastNLines (Some \<lparr>content = ''a\<newline>b\<newline>c'', readable = True\<rparr>) 2
     = Resolved [ascii ''b'', ascii ''c'']"
proof -
  have "linesKept (ascii ''a\<newline>b\<newline>c'') = [ascii ''a'', ascii ''b'', ascii ''c'']"
    by code_simp
  moreover have "asciiText ''a\<newline>b\<newline>c''"
    by code_simp
  ultimately show ?thesis
    using getLastNLines_suffix [of 2 "''a\<newline>b\<newline>c''"] by simp
qed

text \<open>
  C1 as stated fails on a file whose first line is empty: a newline followed by \<^verbatim>\<open>abc\<close> has
  the two lines \<^verbatim>\<open>""\<close> and \<^verbatim>\<open>"abc"\<close>, and a request for two lines returns only the
  second.
\<close>

theorem getLastNLines_blank_first_line:
  "getLastNLines (Some \<lparr>content = ''\<newline>abc'', readable = True\<rparr>) 2
     = Resolved [ascii ''abc'']
   \<and> lastNLines_reference (toString_utf8 ''\<newline>abc'') 2 = [[], ascii ''abc'']
   \<and> getLastNLines (Some \<lparr>content = ''\<newline>abc'', readable = True\<rparr>) 2
       \<noteq> Resolved (lastNLines_reference (toString_utf8 ''\<newline>abc'') 2)"
  by code_simp

text \<open>With the count 0 the slice is the whole array of the last chunk but its first fragment.\<close>

lemma getLastNLines_zero_example:
  "getLastNLines (Some \<lparr>content = ''a\<newline>b\<newline>'', readable = True\<rparr>) 0
     = Resolved [ascii ''b'', []]"
  by code_simp

text \<open>
  After a final newline the split has one more, empty, fragment, and the slice counts it:
  the last line of such a file comes back as the empty string.
\<close>

lemma getLastNLines_final_newline_example:
  "getLastNLines (Some \<lparr>content = ''a\<newline>b\<newline>'', readable = True\<rparr>) 1 = Resolved [[]]
   \<and> lastNLines_reference (toString_utf8 ''a\<newline>b\<newline>'') 1 = [ascii ''b'']"
  by code_simp

text \<open>
  Each chunk is decoded on its own: a character of two bytes that lies across a chunk edge
  comes back as two replacement characters.
\<close>

lemma split_nl_newlines: "split_nl (replicate k 0x0A) = replicate (Suc k) []"
  by (induction k) simp_all

lemma decodeBytes_newlines: "decodeBytes initialDecoder (replicate k 0x0A) = replicate k 0x0A"
  by (rule decodeBytes_ascii) (simp add: list_all_iff)

lemma toString_utf8_tail:
  "toString_utf8 (CHR 0xA9 # replicate k (CHR 0x0A)) = 0xFFFD # replicate k 0x0A"
  using decodeBytes_newlines [of k]
  by (simp add: toString_utf8_def leadByte_def initialDecoder_def)

lemma toString_utf8_lead: "toString_utf8 [CHR 0xC3] = [0xFFFD]"
  by (simp add: toString_utf8_def leadByte_def initialDecoder_def)

lemma readChunk_at_start:
  "readChunk data n 0 leftover lines
     = Some (slice_last n (if truthy leftover then leftover # lines else lines))"
  by (subst readChunk.simps) simp

lemma getLastNLines_chunk_edge_example:
  "getLastNLines
     (Some \<lparr>content = CHR 0xC3 # CHR 0xA9 # replicate 1023 (CHR 0x0A), readable = True\<rparr>) 2000
     = Resolved ([0xFFFD, 0xFFFD] # replicate 1023 [])"
proof -
  let ?F = "CHR 0xC3 # CHR 0xA9 # replicate 1023 (CHR 0x0A)"
  have one: "readChunk ?F 2000 1025 [] []
      = readChunk ?F 2000 1 [0xFFFD] (replicate 1023 [])"
    by (subst readChunk.simps)
      (simp add: bufferSize_def Let_def toString_utf8_tail split_nl_newlines)
  have two: "readChunk ?F 2000 1 [0xFFFD] (replicate 1023 [])
      = readChunk ?F 2000 0 [0xFFFD, 0xFFFD] (replicate 1023 [])"
    by (subst readChunk.simps)
      (simp add: bufferSize_def Let_def toString_utf8_lead)
  have "readChunk ?F 2000 1025 [] [] = Some ([0xFFFD, 0xFFFD] # replicate 1023 [])"
    unfolding one two readChunk_at_start by (simp add: truthy_def slice_last_def)
  then show ?thesis by (simp add: getLastNLines_def fs_open_def)
qed

text \<open>The reverse reader settles for every file and every count.\<close>

lemma readChunk_settles:
  "position \<le> length data \<Longrightarrow> readChunk data n position leftover lines \<noteq> None"
proof (induction position arbitrary: leftover lines rule: less_induct)
  case (less position)
  show ?case
  proof (cases "position = 0")
    case True
    then show ?thesis by (subst readChunk.simps) simp
  next
    case False
    define bytesToRead where "bytesToRead = min position bufferSize"
    have pos: "0 < bytesToRead" "bytesToRead \<le> position"
      using False by (simp_all add: bytesToRead_def bufferSize_def)
    have len: "length (take bytesToRead (drop (position - bytesToRead) data)) = bytesToRead"
      using pos less.prems by simp
    have "position - bytesToRead < position" "position - bytesToRead \<le> length data"
      using pos less.prems by simp_all
    then have IH: "\<And>l ls. readChunk data n (position - bytesToRead) l ls \<noteq> None"
      using less.IH by blast
    show ?thesis
      using pos len IH
      by (subst readChunk.simps)
        (simp add: Let_def bytesToRead_def [symmetric] del: length_take length_drop)
  qed
qed

lemma getLastNLines_settles: "getLastNLines entry n \<noteq> Pending"
proof (cases "fs_open entry")
  case (Inl err)
  then show ?thesis by (simp add: getLastNLines_def)
next
  case (Inr data)
  obtain lines where "readChunk data n (length data) [] [] = Some lines"
    using readChunk_settles [of "length data" data n "[]" "[]"] by auto
  with Inr show ?thesis by (simp add: getLastNLines_def)
qed

section \<open>The incremental reader\<close>

lemma truthy_trim: "truthy (trim line) = (\<not> blank line)"
proof -
  have "dropWhile isWhiteSpace line = [] \<longleftrightarrow> list_all isWhiteSpace line"
    by (simp add: dropWhile_eq_Nil_conv list_all_iff)
  moreover have "dropWhile isWhiteSpace (rev (dropWhile isWhiteSpace line)) = []
      \<longleftrightarrow> dropWhile isWhiteSpace line = []"
  proof
    assume "dropWhile isWhiteSpace (rev (dropWhile isWhiteSpace line)) = []"
    then have all: "\<forall>c \<in> set (dropWhile isWhiteSpace line). isWhiteSpace c"
      by (simp add: dropWhile_eq_Nil_conv)
    show "dropWhile isWhiteSpace line = []"
    proof (cases "dropWhile isWhiteSpace line")
      case Nil
      then show ?thesis .
    next
      case (Cons c cs)
      then have "\<not> isWhiteSpace c" using hd_dropWhile [of isWhiteSpace line] by simp
      with all Cons show ?thesis by simp
    qed
  next
    assume e: "dropWhile isWhiteSpace line = []"
    show "dropWhile isWhiteSpace (rev (dropWhile isWhiteSpace line)) = []"
      unfolding e by simp
  qed
  ultimately show ?thesis by (simp add: truthy_def trim_def blank_def)
qed

lemma split_nl_butlast_last: "split_nl s = completeLines s @ [last (split_nl s)]"
  using split_nl_nonempty [of s] by (simp add: completeLines_def)

lemma getNewLines_readable:
  "getNewLines (Some \<lparr>content = F @ C, readable = True\<rparr>) (length F)
     = Resolved (filter (\<lambda>line. \<not> blank line) (split_nl (toString_utf8 C)))"
  by (simp add: getNewLines_def fs_open_def truthy_trim)

lemma filter_split_reference:
  "filter (\<lambda>line. \<not> blank line) (split_nl s)
     = newLines_reference s @ filter (\<lambda>line. \<not> blank line) [last (split_nl s)]"
proof -
  have "filter (\<lambda>line. \<not> blank line) (split_nl s)
      = filter (\<lambda>line. \<not> blank line) (completeLines s @ [last (split_nl s)])"
    using split_nl_butlast_last [of s] by simp
  then show ?thesis by (simp add: newLines_reference_def)
qed

lemma lastFileSize_checkCycle: "lastFileSize w \<le> lastFileSize (checkCycle w)"
  by (auto simp: checkCycle_def checkTry_def split: sum.splits promise.splits)

text \<open>
  C2, as amended. After the bytes \<open>C\<close> have been appended to a readable file \<open>F\<close>,
  \<^verbatim>\<open>getNewLines\<close> from the offset \<open>length F\<close> resolves with the non-blank fragments between
  the newlines of the decoded \<open>C\<close>, in file order: the non-blank lines fully contained in \<open>C\<close>,
  followed by the trailing fragment that no newline ends yet when that fragment is not
  blank. The check that reads them records the size of the file as the new offset, and no
  check ever lowers the offset.
\<close>

theorem getNewLines_appended:
  "getNewLines (Some \<lparr>content = F @ C, readable = True\<rparr>) (length F)
     = Resolved (newLines_reference (toString_utf8 C)
         @ filter (\<lambda>line. \<not> blank line) [last (split_nl (toString_utf8 C))])
   \<and> lastFileSize (checkCycle \<lparr>logFile = Some \<lparr>content = F @ C, readable = True\<rparr>,
        lastFileSize = length F, clients = cs, closed = cl\<rparr>) = length F + length C
   \<and> lastFileSize w \<le> lastFileSize (checkCycle w)"
  using getNewLines_readable [of F C] filter_split_reference [of "toString_utf8 C"]
    lastFileSize_checkCycle [of w]
  by (simp add: checkCycle_def checkTry_def fs_stat_def)

text \<open>A blank line is filtered out, and the unterminated \<^verbatim>\<open>c\<close> is emitted.\<close>

theorem getNewLines_appended_witness:
  "getNewLines (Some \<lparr>content = ''x\<newline>'' @ ''a\<newline> \<newline>b\<newline>c'', readable = True\<rparr>)
      (length ''x\<newline>'') = Resolved [ascii ''a'', ascii ''b'', ascii ''c'']"
proof -
  have "newLines_reference (toString_utf8 ''a\<newline> \<newline>b\<newline>c'')
        @ filter (\<lambda>line. \<not> blank line) [last (split_nl (toString_utf8 ''a\<newline> \<newline>b\<newline>c''))]
      = [ascii ''a'', ascii ''b'', ascii ''c'']"
    by (simp add: newLines_reference_def completeLines_def blank_def toString_utf8_def
        leadByte_def initialDecoder_def isWhiteSpace_def ascii_def)
  then show ?thesis
    using getNewLines_appended [of "''x\<newline>''" "''a\<newline> \<newline>b\<newline>c''"]
    by (simp only:)
qed

text \<open>
  C2 as stated fails when the appended text does not end with a newline: after \<^verbatim>\<open>par\<close> has
  been appended, no line is fully contained in it, and \<^verbatim>\<open>getNewLines\<close> emits \<^verbatim>\<open>par\<close>
  as a line.
\<close>

theorem getNewLines_unterminated_fragment:
  "getNewLines (Some \<lparr>content = ''line1\<newline>'' @ ''par'', readable = True\<rparr>) (length ''line1\<newline>'')
     = Resolved [ascii ''par'']
   \<and> newLines_reference (toString_utf8 ''par'') = []
   \<and> getNewLines (Some \<lparr>content = ''line1\<newline>'' @ ''par'', readable = True\<rparr>) (length ''line1\<newline>'')
       \<noteq> Resolved (newLines_reference (toString_utf8 ''par''))"
  by (simp add: getNewLines_def fs_open_def toString_utf8_def leadByte_def initialDecoder_def utf16_def
      truthy_def trim_def isWhiteSpace_def ascii_def
      newLines_reference_def completeLines_def)

text \<open>A line that holds a no-break space only is blank.\<close>

lemma getNewLines_no_break_space_example:
  "getNewLines (Some \<lparr>content = [CHR 0xC2, CHR 0xA0, CHR 0x0A], readable = True\<rparr>) 0 = Resolved []"
  by (simp add: getNewLines_def fs_open_def toString_utf8_def leadByte_def initialDecoder_def utf16_def
      truthy_def trim_def isWhiteSpace_def ascii_def)

section \<open>The change detector\<close>

lemma checkCycle_not_grown:
  "\<forall>sz. fs_stat (logFile w) = Inr sz \<longrightarrow> sz \<le> lastFileSize w \<Longrightarrow> checkCycle w = w"
  by (auto simp: checkCycle_def checkTry_def split: sum.splits)

lemma writes_below_offset:
  "\<forall>entry \<in> set entries. \<forall>sz. fs_stat entry = Inr sz \<longrightarrow> sz \<le> lastFileSize w \<Longrightarrow>
   entries \<noteq> [] \<Longrightarrow>
   run (concat (map (\<lambda>entry. [WriteFile entry, TimerFired]) entries)) w
     = w\<lparr>logFile := last entries\<rparr>"
proof (induction entries arbitrary: w)
  case Nil
  then show ?case by simp
next
  case (Cons entry entries)
  have one: "checkCycle (w\<lparr>logFile := entry\<rparr>) = w\<lparr>logFile := entry\<rparr>"
    using Cons.prems(1) by (intro checkCycle_not_grown) simp
  show ?case
  proof (cases "entries = []")
    case True
    with one show ?thesis by (simp add: run_def)
  next
    case False
    have "run (concat (map (\<lambda>entry. [WriteFile entry, TimerFired]) entries)) (w\<lparr>logFile := entry\<rparr>)
        = (w\<lparr>logFile := entry\<rparr>)\<lparr>logFile := last entries\<rparr>"
      using Cons.prems(1) False by (intro Cons.IH) simp_all
    with one False show ?thesis by (simp add: run_def)
  qed
qed

text \<open>
  C4. A debounced check never lowers \<^verbatim>\<open>lastFileSize\<close>. When the stat fails or reports a size
  that is not above \<^verbatim>\<open>lastFileSize\<close>, a shrunk file included, the check changes nothing: no
  read, no message, the same offset. So after any series of writes that each leave the file
  no larger than the offset, each followed by a check, no subscriber has received anything and
  the offset is what it was.
\<close>

theorem offset_never_decreases:
  "lastFileSize w \<le> lastFileSize (checkCycle w)
   \<and> ((\<forall>sz. fs_stat (logFile w) = Inr sz \<longrightarrow> sz \<le> lastFileSize w) \<longrightarrow> checkCycle w = w)
   \<and> (entries \<noteq> [] \<and> (\<forall>entry \<in> set entries. \<forall>sz. fs_stat entry = Inr sz \<longrightarrow> sz \<le> lastFileSize w)
        \<longrightarrow> run (concat (map (\<lambda>entry. [WriteFile entry, TimerFired]) entries)) w
              = w\<lparr>logFile := last entries\<rparr>)"
  using lastFileSize_checkCycle [of w] checkCycle_not_grown [of w] writes_below_offset [of entries w]
  by blast

text \<open>A file of 11 bytes is truncated and regrows to 6 bytes: nothing is broadcast.\<close>

theorem offset_never_decreases_witness:
  "run [WriteFile (Some \<lparr>content = [], readable = True\<rparr>), TimerFired,
        WriteFile (Some \<lparr>content = ''fresh\<newline>'', readable = True\<rparr>), TimerFired]
     \<lparr>logFile = Some \<lparr>content = ''0123456789\<newline>'', readable = True\<rparr>, lastFileSize = 11,
      clients = [\<lparr>readyState = OPEN, sent = []\<rparr>], closed = []\<rparr>
   = \<lparr>logFile = Some \<lparr>content = ''fresh\<newline>'', readable = True\<rparr>, lastFileSize = 11,
      clients = [\<lparr>readyState = OPEN, sent = []\<rparr>], closed = []\<rparr>"
  using offset_never_decreases
    [of "\<lparr>logFile = Some \<lparr>content = ''0123456789\<newline>'', readable = True\<rparr>, lastFileSize = 11,
          clients = [\<lparr>readyState = OPEN, sent = []\<rparr>], closed = []\<rparr>"
        "[Some \<lparr>content = [], readable = True\<rparr>, Some \<lparr>content = ''fresh\<newline>'', readable = True\<rparr>]"]
  by (simp add: fs_stat_def)

text \<open>
  C5. When the stat fails, or the incremental read is rejected, the check leaves the whole
  state as it was: the offset, the subscribers and everything sent to them. The callback
  returns normally, and the next check reads from the same offset as if the failed one had
  not run.
\<close>

theorem failed_cycle_changes_nothing:
  "fs_stat (logFile w) = Inl err \<or> getNewLines (logFile w) (lastFileSize w) = Rejected err \<Longrightarrow>
     checkCycle w = w
     \<and> checkCycle ((checkCycle w)\<lparr>logFile := entry\<rparr>) = checkCycle (w\<lparr>logFile := entry\<rparr>)"
  by (auto simp: checkCycle_def checkTry_def split: sum.splits)

text \<open>An unreadable file, whose stat succeeds and whose read fails, and an absent file.\<close>

theorem failed_cycle_changes_nothing_witness:
  "checkCycle \<lparr>logFile = Some \<lparr>content = ''line1\<newline>'', readable = False\<rparr>, lastFileSize = 0,
       clients = [\<lparr>readyState = OPEN, sent = []\<rparr>], closed = []\<rparr>
     = \<lparr>logFile = Some \<lparr>content = ''line1\<newline>'', readable = False\<rparr>, lastFileSize = 0,
        clients = [\<lparr>readyState = OPEN, sent = []\<rparr>], closed = []\<rparr>
   \<and> checkCycle \<lparr>logFile = None, lastFileSize = 3, clients = [], closed = []\<rparr>
     = \<lparr>logFile = None, lastFileSize = 3, clients = [], closed = []\<rparr>"
  using failed_cycle_changes_nothing
    [of "\<lparr>logFile = Some \<lparr>content = ''line1\<newline>'', readable = False\<rparr>, lastFileSize = 0,
          clients = [\<lparr>readyState = OPEN, sent = []\<rparr>], closed = []\<rparr>" EACCES]
    failed_cycle_changes_nothing
    [of "\<lparr>logFile = None, lastFileSize = 3, clients = [], closed = []\<rparr>" ENOENT]
  by (simp add: getNewLines_def fs_open_def fs_stat_def)

section \<open>Subscribers\<close>

lemma checkCycle_grown:
  "fs_stat (logFile w) = Inr sz \<Longrightarrow> lastFileSize w < sz \<Longrightarrow>
   getNewLines (logFile w) (lastFileSize w) = Resolved batch \<Longrightarrow>
   checkCycle w = w\<lparr>lastFileSize := sz, clients := forEachClient (linesMessage batch) (clients w)\<rparr>"
  by (simp add: checkCycle_def checkTry_def)

text \<open>
  C6, as amended. A check that finds the file grown and reads a batch, empty or not, sends
  that batch exactly once to every socket of \<^verbatim>\<open>wss.clients\<close> that is open, and nothing to a
  socket that is not; a socket that is not open is passed over and the others are still
  served. A socket that closed before the check is no longer in the set and receives
  nothing, while the remaining ones receive what they would have received anyway.
\<close>

theorem broadcast_fan_out:
  assumes "fs_stat (logFile w) = Inr sz" and "lastFileSize w < sz"
    and "getNewLines (logFile w) (lastFileSize w) = Resolved batch"
  shows "length (clients (checkCycle w)) = length (clients w)
    \<and> (\<forall>i < length (clients w).
          clients (checkCycle w) ! i =
            (if readyState (clients w ! i) = OPEN
             then (clients w ! i)\<lparr>sent := sent (clients w ! i) @ [linesMessage batch]\<rparr>
             else clients w ! i))
    \<and> closed (checkCycle w) = closed w
    \<and> (\<forall>j < length (clients w).
          closed (checkCycle (closeClient j w)) = closed w @ [(clients w ! j)\<lparr>readyState := CLOSED\<rparr>]
          \<and> clients (checkCycle (closeClient j w))
              = take j (clients (checkCycle w)) @ drop (Suc j) (clients (checkCycle w)))"
proof -
  have a: "checkCycle w
      = w\<lparr>lastFileSize := sz, clients := forEachClient (linesMessage batch) (clients w)\<rparr>"
    using assms by (rule checkCycle_grown)
  have b: "checkCycle (closeClient j w)
      = (closeClient j w)\<lparr>lastFileSize := sz,
          clients := forEachClient (linesMessage batch) (clients (closeClient j w))\<rparr>" for j
    using assms by (intro checkCycle_grown) (simp_all add: closeClient_def)
  have c: "forEachClient m (take j cs @ drop (Suc j) cs)
      = take j (forEachClient m cs) @ drop (Suc j) (forEachClient m cs)" for m j cs
    by (simp add: forEachClient_def take_map drop_map)
  have d: "length (forEachClient m cs) = length cs" for m cs
    by (simp add: forEachClient_def)
  have e: "i < length cs \<Longrightarrow> forEachClient m cs ! i =
      (if readyState (cs ! i) = OPEN then (cs ! i)\<lparr>sent := sent (cs ! i) @ [m]\<rparr> else cs ! i)"
    for m cs i
    by (simp add: forEachClient_def ws_send_def)
  show ?thesis
    unfolding a b by (simp add: c d e closeClient_def)
qed

text \<open>Two open subscribers and one that is closing.\<close>

theorem broadcast_fan_out_witness:
  "clients (checkCycle
      \<lparr>logFile = Some \<lparr>content = ''a\<newline>b\<newline>'', readable = True\<rparr>, lastFileSize = 2,
       clients = [\<lparr>readyState = OPEN, sent = [linesMessage [ascii ''a'']]\<rparr>,
                  \<lparr>readyState = CLOSING, sent = []\<rparr>,
                  \<lparr>readyState = OPEN, sent = []\<rparr>],
       closed = []\<rparr>)
   = [\<lparr>readyState = OPEN, sent = [linesMessage [ascii ''a''], linesMessage [ascii ''b'']]\<rparr>,
      \<lparr>readyState = CLOSING, sent = []\<rparr>,
      \<lparr>readyState = OPEN, sent = [linesMessage [ascii ''b'']]\<rparr>]"
proof -
  have g: "getNewLines (Some \<lparr>content = ''a\<newline>b\<newline>'', readable = True\<rparr>) 2
      = Resolved [ascii ''b'']"
    by (simp add: getNewLines_def fs_open_def toString_utf8_def leadByte_def initialDecoder_def utf16_def
      truthy_def trim_def isWhiteSpace_def ascii_def)
  show ?thesis
    using broadcast_fan_out
      [of "\<lparr>logFile = Some \<lparr>content = ''a\<newline>b\<newline>'', readable = True\<rparr>, lastFileSize = 2,
       clients = [\<lparr>readyState = OPEN, sent = [linesMessage [ascii ''a'']]\<rparr>,
                  \<lparr>readyState = CLOSING, sent = []\<rparr>,
                  \<lparr>readyState = OPEN, sent = []\<rparr>],
       closed = []\<rparr>" 4 "[ascii ''b'']"]
    by (simp add: g fs_stat_def checkCycle_def checkTry_def forEachClient_def ws_send_def)
qed

text \<open>
  C6 as stated fails when the appended text holds blank lines only: the batch is empty, and
  it is delivered all the same.
\<close>

theorem broadcast_empty_batch:
  "getNewLines (Some \<lparr>content = ''\<newline>'', readable = True\<rparr>) 0 = Resolved []
   \<and> clients (checkCycle
        \<lparr>logFile = Some \<lparr>content = ''\<newline>'', readable = True\<rparr>, lastFileSize = 0,
         clients = [\<lparr>readyState = OPEN, sent = []\<rparr>], closed = []\<rparr>)
     = [\<lparr>readyState = OPEN, sent = [linesMessage []]\<rparr>]"
  by (simp add: fs_stat_def getNewLines_def fs_open_def toString_utf8_def leadByte_def initialDecoder_def utf16_def
      truthy_def trim_def isWhiteSpace_def ascii_def
      checkCycle_def checkTry_def forEachClient_def ws_send_def)

text \<open>
  C7. A connection adds one open subscriber and sends it exactly one message: the last 10
  lines as a \<^verbatim>\<open>lines\<close> message when the read resolves, the error message when it is
  rejected; the read always settles. Nothing else changes: the other subscribers, what they
  have received, the offset and the file are as before.
\<close>

theorem connection_catch_up:
  "\<exists>message.
     connection w = w\<lparr>clients := clients w @ [\<lparr>readyState = OPEN, sent = [message]\<rparr>]\<rparr>
     \<and> (case getLastNLines (logFile w) 10 of
          Resolved lines \<Rightarrow> message = linesMessage lines
        | Rejected err \<Rightarrow> message = errorMessage
        | Pending \<Rightarrow> False)"
  using getLastNLines_settles [of "logFile w" 10]
  by (cases "getLastNLines (logFile w) 10") (simp_all add: connection_def ws_send_def)

text \<open>The file is absent when the second subscriber connects.\<close>

theorem connection_catch_up_witness:
  "connection \<lparr>logFile = None, lastFileSize = 7,
       clients = [\<lparr>readyState = OPEN, sent = []\<rparr>], closed = []\<rparr>
   = \<lparr>logFile = None, lastFileSize = 7,
      clients = [\<lparr>readyState = OPEN, sent = []\<rparr>, \<lparr>readyState = OPEN, sent = [errorMessage]\<rparr>],
      closed = []\<rparr>"
  using connection_catch_up
    [of "\<lparr>logFile = None, lastFileSize = 7,
          clients = [\<lparr>readyState = OPEN, sent = []\<rparr>], closed = []\<rparr>"]
  by (auto simp: getLastNLines_def fs_open_def)

lemma logFile_step: "\<not> isWrite ev \<Longrightarrow> logFile (step ev w) = logFile w"
  by (cases ev)
    (auto simp: connection_def checkCycle_def checkTry_def closeClient_def closingClient_def
      Let_def split: sum.splits promise.splits)

lemma logFile_run: "list_all (\<lambda>ev. \<not> isWrite ev) evs \<Longrightarrow> logFile (run evs w) = logFile w"
  unfolding run_def by (induction evs arbitrary: w) (simp_all add: logFile_step)

text \<open>
  C9. Whatever the engine does between two calls of \<^verbatim>\<open>getLastNLines\<close>, as long as no
  writer touches the file, the two calls give the same result; in particular two
  subscribers connecting one after the other receive the same catch-up message.
\<close>

theorem getLastNLines_idempotent:
  "list_all (\<lambda>ev. \<not> isWrite ev) evs \<Longrightarrow>
     getLastNLines (logFile (run evs w)) n = getLastNLines (logFile w) n
     \<and> sent (last (clients (connection (run evs (connection w)))))
         = sent (last (clients (connection w)))"
proof -
  assume evs: "list_all (\<lambda>ev. \<not> isWrite ev) evs"
  have "list_all (\<lambda>ev. \<not> isWrite ev) (Connect # evs)" using evs by simp
  then have "logFile (run (Connect # evs) w) = logFile w" by (rule logFile_run)
  then have "logFile (run evs (connection w)) = logFile w" by (simp add: run_def)
  then have "sent (last (clients (connection (run evs (connection w)))))
      = sent (last (clients (connection w)))"
    by (simp add: connection_def Let_def)
  with logFile_run [OF evs, of w] show ?thesis by simp
qed

text \<open>A check and a close between two connections.\<close>

theorem getLastNLines_idempotent_witness:
  "sent (last (clients (connection (run [TimerFired, Close 0]
      (connection \<lparr>logFile = Some \<lparr>content = ''a\<newline>b'', readable = True\<rparr>, lastFileSize = 0,
         clients = [], closed = []\<rparr>)))))
   = [linesMessage [ascii ''a'', ascii ''b'']]"
proof -
  have g: "getLastNLines (Some \<lparr>content = ''a\<newline>b'', readable = True\<rparr>) 10
      = Resolved [ascii ''a'', ascii ''b'']"
    by code_simp
  show ?thesis
    using getLastNLines_idempotent
      [of "[TimerFired, Close 0]"
          "\<lparr>logFile = Some \<lparr>content = ''a\<newline>b'', readable = True\<rparr>, lastFileSize = 0,
            clients = [], closed = []\<rparr>"]
    by (simp add: g connection_def ws_send_def)
qed

section \<open>The start of the engine\<close>

text \<open>
  With a file that can be watched the engine starts with the size of the file as its offset;
  the handler for a failed stat sets the offset to 0.
\<close>

lemma startEngine_readable:
  "startEngine (Some \<lparr>content = F, readable = True\<rparr>)
     = Inr \<lparr>logFile = Some \<lparr>content = F, readable = True\<rparr>, lastFileSize = length F,
            clients = [], closed = []\<rparr>"
  by (simp add: startEngine_def fs_watch_def initialStat_def fs_stat_def)

lemma initialStat_failed:
  "fs_stat (logFile w) = Inl err \<Longrightarrow> initialStat w = w\<lparr>lastFileSize := 0\<rparr>"
  by (simp add: initialStat_def)

text \<open>
  C8, at the input where it fails. When the file is absent as the module is loaded, or may
  not be read, \<^verbatim>\<open>fs.watch\<close> throws before the initial stat is asked for: no offset is
  set to 0 and no engine runs, although the handler of the stat is written for a file that
  does not exist.
\<close>

theorem startEngine_absent_file:
  "startEngine None = Inl ENOENT
   \<and> startEngine (Some \<lparr>content = ''line1\<newline>'', readable = False\<rparr>) = Inl EACCES"
  by (simp add: startEngine_def fs_watch_def)

section \<open>Messages\<close>

lemma wellShaped_linesMessage: "wellShaped (linesMessage lines)"
  by (simp add: linesMessage_def list_all_iff)

lemma wellShaped_errorMessage: "wellShaped errorMessage"
  by (simp add: errorMessage_def)

lemma all_isJString: "list_all isJString vs \<Longrightarrow> \<exists>lines. vs = map JString lines"
proof (induction vs)
  case Nil
  then show ?case by simp
next
  case (Cons v vs)
  then obtain lines where "vs = map JString lines" by auto
  moreover obtain s where "v = JString s" using Cons.prems by (cases v) auto
  ultimately have "v # vs = map JString (s # lines)" by simp
  then show ?case by (rule exI)
qed

lemma wellShaped_shapes:
  "wellShaped m \<Longrightarrow> (\<exists>lines. m = linesMessage lines) \<or> m = errorMessage"
proof (induction m rule: wellShaped.induct)
  case (1 k vs)
  then show ?case using all_isJString [of vs] by (auto simp: linesMessage_def)
next
  case (2 k s)
  then show ?case by (simp add: errorMessage_def)
qed simp_all

lemma allShaped_connection: "allShaped w \<Longrightarrow> allShaped (connection w)"
  by (cases "getLastNLines (logFile w) 10")
    (simp_all add: allShaped_def connection_def ws_send_def wellShaped_linesMessage
      wellShaped_errorMessage)

lemma shaped_forEachClient:
  "list_all (\<lambda>c. list_all wellShaped (sent c)) cs \<Longrightarrow>
     list_all (\<lambda>c. list_all wellShaped (sent c)) (forEachClient (linesMessage lines) cs)"
  by (induction cs) (simp_all add: forEachClient_def ws_send_def wellShaped_linesMessage)

lemma allShaped_checkCycle: "allShaped w \<Longrightarrow> allShaped (checkCycle w)"
  by (auto simp: allShaped_def checkCycle_def checkTry_def shaped_forEachClient
      split: sum.splits promise.splits)

lemma allShaped_closeClient: "allShaped w \<Longrightarrow> allShaped (closeClient i w)"
proof (cases "i < length (clients w)")
  case True
  assume "allShaped w"
  then have a: "\<forall>c \<in> set (clients w) \<union> set (closed w). list_all wellShaped (sent c)"
    by (simp add: allShaped_def list_all_iff)
  have "set (take i (clients w)) \<subseteq> set (clients w)" "set (drop (Suc i) (clients w)) \<subseteq> set (clients w)"
    "clients w ! i \<in> set (clients w)"
    using True by (simp_all add: set_take_subset set_drop_subset)
  with a True show ?thesis
    by (auto simp: allShaped_def closeClient_def list_all_iff)
next
  case False
  assume "allShaped w"
  with False show ?thesis by (simp add: closeClient_def)
qed

lemma list_all_update: "list_all P xs \<Longrightarrow> P y \<Longrightarrow> list_all P (xs[i := y])"
  by (induction xs arbitrary: i) (auto split: nat.splits)

lemma allShaped_closingClient: "allShaped w \<Longrightarrow> allShaped (closingClient i w)"
proof (cases "i < length (clients w)")
  case True
  assume a: "allShaped w"
  then have "list_all (\<lambda>c. list_all wellShaped (sent c)) (clients w)"
    by (simp add: allShaped_def)
  moreover from this have "list_all wellShaped (sent ((clients w ! i)\<lparr>readyState := CLOSING\<rparr>))"
    using True by (simp add: list_all_length)
  ultimately have "list_all (\<lambda>c. list_all wellShaped (sent c))
      ((clients w)[i := (clients w ! i)\<lparr>readyState := CLOSING\<rparr>])"
    by (rule list_all_update)
  with a True show ?thesis by (simp add: allShaped_def closingClient_def)
next
  case False
  assume "allShaped w"
  with False show ?thesis by (simp add: closingClient_def)
qed

lemma allShaped_step: "allShaped w \<Longrightarrow> allShaped (step ev w)"
proof (cases ev)
  case (WriteFile entry)
  assume "allShaped w"
  with WriteFile show ?thesis by (simp add: allShaped_def)
qed (simp_all add: allShaped_connection allShaped_checkCycle allShaped_closeClient
    allShaped_closingClient)

lemma allShaped_run: "allShaped w \<Longrightarrow> allShaped (run evs w)"
  unfolding run_def by (induction evs arbitrary: w) (simp_all add: allShaped_step)

lemma allShaped_startEngine: "startEngine entry = Inr w \<Longrightarrow> allShaped w"
  by (auto simp: allShaped_def startEngine_def initialStat_def split: sum.splits)

text \<open>
  C10. Every message that any subscriber has been sent, in any run of an engine that has
  started, is an object with the one key \<^verbatim>\<open>lines\<close> and an array of strings under it, or
  the object with the one key \<^verbatim>\<open>error\<close> and the text \<^verbatim>\<open>Unable to read file\<close> under it.
\<close>

theorem messages_have_two_shapes:
  "startEngine entry = Inr w \<Longrightarrow>
   \<forall>c \<in> set (clients (run evs w) @ closed (run evs w)).
     \<forall>m \<in> set (sent c).
       (\<exists>lines. m = JObject [(''lines'', JArray (map JString lines))])
       \<or> m = JObject [(''error'', JString (ascii ''Unable to read file''))]"
proof -
  assume "startEngine entry = Inr w"
  then have "allShaped (run evs w)"
    by (intro allShaped_run allShaped_startEngine)
  then show ?thesis
    using wellShaped_shapes
    by (auto simp: allShaped_def list_all_iff linesMessage_def errorMessage_def)
qed

text \<open>A subscriber connects while the file is absent, then a line is written.\<close>

theorem messages_have_two_shapes_witness:
  "sent (hd (clients (run [WriteFile None, Connect,
      WriteFile (Some \<lparr>content = ''x\<newline>'', readable = True\<rparr>), TimerFired]
      \<lparr>logFile = Some \<lparr>content = [], readable = True\<rparr>, lastFileSize = 0,
        clients = [], closed = []\<rparr>)))
   = [JObject [(''error'', JString (ascii ''Unable to read file''))],
      JObject [(''lines'', JArray [JString (ascii ''x'')])]]"
proof -
  have g: "getNewLines (Some \<lparr>content = ''x\<newline>'', readable = True\<rparr>) 0 = Resolved [ascii ''x'']"
    by (simp add: getNewLines_def fs_open_def toString_utf8_def leadByte_def initialDecoder_def utf16_def
      truthy_def trim_def isWhiteSpace_def ascii_def)
  show ?thesis
    using messages_have_two_shapes
      [of "Some \<lparr>content = [], readable = True\<rparr>"
          "\<lparr>logFile = Some \<lparr>content = [], readable = True\<rparr>, lastFileSize = 0,
            clients = [], closed = []\<rparr>"
          "[WriteFile None, Connect,
            WriteFile (Some \<lparr>content = ''x\<newline>'', readable = True\<rparr>), TimerFired]"]
      startEngine_readable [of "[]"]
    by (simp add: g run_def connection_def getLastNLines_def fs_open_def fs_stat_def
        checkCycle_def checkTry_def forEachClient_def ws_send_def linesMessage_def errorMessage_def)
qed

section \<open>Debouncing\<close>

lemma notify_change_pending:
  assumes "timers s = [] \<or> (\<exists>h d. timers s = [(h, d)] \<and> debounceTimeout s = Some h \<and> t < d)"
    and "now s \<le> t"
  shows "checks (notify t change s) = checks s"
    and "engine (notify t change s) = engine s"
    and "now (notify t change s) = t"
    and "\<exists>h. timers (notify t change s) = [(h, t + 100)]
            \<and> debounceTimeout (notify t change s) = Some h"
  using assms
  by (auto simp: notify_def advance_def watchCallback_def clearTimeout_def setTimeout_def
      Let_def max_def split: option.splits)

lemma burst_pending:
  assumes "timers s = [] \<or> (\<exists>h d. timers s = [(h, d)] \<and> debounceTimeout s = Some h \<and> t < d)"
    and "now s \<le> t" and "rapid (t # ts)"
  shows "checks (burst (t # ts) s) = checks s
    \<and> engine (burst (t # ts) s) = engine s
    \<and> (\<exists>h. timers (burst (t # ts) s) = [(h, last (t # ts) + 100)])"
  using assms
proof (induction ts arbitrary: s t)
  case Nil
  then show ?case
    using notify_change_pending [of s t] by (auto simp: burst_def)
next
  case (Cons u ts)
  let ?s = "notify t change s"
  have n: "checks ?s = checks s" "engine ?s = engine s" "now ?s = t"
    "\<exists>h. timers ?s = [(h, t + 100)] \<and> debounceTimeout ?s = Some h"
    using notify_change_pending [OF Cons.prems(1,2)] by auto
  have u: "t \<le> u" "u < t + 100" "rapid (u # ts)"
    using Cons.prems(3) by simp_all
  have "timers ?s = [] \<or> (\<exists>h d. timers ?s = [(h, d)] \<and> debounceTimeout ?s = Some h \<and> u < d)"
    using n(4) u(2) by auto
  moreover have "now ?s \<le> u" using n(3) u(1) by simp
  ultimately have "checks (burst (u # ts) ?s) = checks ?s
    \<and> engine (burst (u # ts) ?s) = engine ?s
    \<and> (\<exists>h. timers (burst (u # ts) ?s) = [(h, last (u # ts) + 100)])"
    using u(3) by (rule Cons.IH)
  moreover have "burst (t # u # ts) s = burst (u # ts) ?s"
    by (simp add: burst_def)
  ultimately show ?case using n by simp
qed

text \<open>
  C3. Let \<open>N \<ge> 1\<close> change notifications arrive at times in order, each less than 100 ms after
  the one before, while no timer is pending at the first. Each notification clears the
  pending timer and sets a new one, so one timer is pending after the last. The timer
  callback does not run before 100 ms have passed since the last notification, and once they
  have passed it has run exactly once: one check, not \<open>N\<close>.
\<close>

theorem debounce_coalesces_burst:
  assumes "timers s = []" and "now s \<le> t" and "rapid (t # ts)"
  shows "checks (burst (t # ts) s) = checks s
    \<and> (\<exists>h. timers (burst (t # ts) s) = [(h, last (t # ts) + 100)])
    \<and> (\<forall>T < last (t # ts) + 100. checks (advance T (burst (t # ts) s)) = checks s)
    \<and> (\<forall>T \<ge> last (t # ts) + 100.
          checks (advance T (burst (t # ts) s)) = checks s + 1
          \<and> engine (advance T (burst (t # ts) s)) = checkCycle (engine s)
          \<and> timers (advance T (burst (t # ts) s)) = [])"
proof -
  have "checks (burst (t # ts) s) = checks s
    \<and> engine (burst (t # ts) s) = engine s
    \<and> (\<exists>h. timers (burst (t # ts) s) = [(h, last (t # ts) + 100)])"
    using assms by (intro burst_pending) simp_all
  then obtain h where b: "checks (burst (t # ts) s) = checks s"
    "engine (burst (t # ts) s) = engine s"
    "timers (burst (t # ts) s) = [(h, last (t # ts) + 100)]"
    by blast
  show ?thesis
    using b by (simp add: advance_def)
qed

text \<open>Three notifications at 0, 50 and 120 ms: one check by 220 ms, none by 219 ms.\<close>

theorem debounce_coalesces_burst_witness:
  "checks (advance 220 (burst [0, 50, 120]
      \<lparr>engine = \<lparr>logFile = None, lastFileSize = 0, clients = [], closed = []\<rparr>,
       now = 0, timers = [], nextHandle = 0, debounceTimeout = None, checks = 0\<rparr>)) = 1
   \<and> checks (advance 219 (burst [0, 50, 120]
      \<lparr>engine = \<lparr>logFile = None, lastFileSize = 0, clients = [], closed = []\<rparr>,
       now = 0, timers = [], nextHandle = 0, debounceTimeout = None, checks = 0\<rparr>)) = 0"
  using debounce_coalesces_burst
    [of "\<lparr>engine = \<lparr>logFile = None, lastFileSize = 0, clients = [], closed = []\<rparr>,
          now = 0, timers = [], nextHandle = 0, debounceTimeout = None, checks = 0\<rparr>"
        0 "[50, 120]"]
  by simp

end
